theory Spec2Isabelle
  imports Main "HOL-Library.Word" "HOL-Library.Char_ord" "HOL-Library.List_Lexorder"
begin

unbundle bit_operations_syntax

section \<open>The patch ledger of cells-sync: endpoint/patch-store.go\<close>

subsection \<open>Values kept in the backing store\<close>

text \<open>
  The store keeps byte strings. What the code does with the bytes of an operation record is
  to hand them to encoding/json, so such a value is represented by the JSON document it
  holds, or marked as not being JSON at all. JSON numbers are restricted to integers (the
  only numbers the code reads are type tags).
\<close>

datatype json = JNull | JBool bool | JNum int | JStr string | JArr "json list"
  | JObj "(string \<times> json) list"

datatype payload = Invalid string | Doc json

text \<open>A failure is either an ordinary Go error value or a run-time panic.\<close>

datatype failure = Error string | Panic string

text \<open>Instants are counted in nanoseconds.\<close>

type_synonym time = int

subsection \<open>Operations and patches (package merger)\<close>

text \<open>
  Modelled from the spec: package merger (github.com/pydio/cells/common/sync/merger) is not
  under src/. The spec gives the operation kinds, the conflict variant with its
  classification and its two nested operations, and the patch contract: construct an empty
  patch bound to (source, target), set the UUID, set the timestamp, set and get the terminal
  error, enqueue an operation, walk the operations in order, report the operation count.
\<close>

datatype OperationType = OpCreate | OpUpdate | OpDelete | OpMove | OpConflict

datatype operation =
    PatchOperation OperationType string
  | ConflictOperation string int operation operation

fun Type :: "operation \<Rightarrow> OperationType" where
  "Type (PatchOperation t n) = t"
| "Type (ConflictOperation n c l r) = OpConflict"

fun GetNode :: "operation \<Rightarrow> string" where
  "GetNode (PatchOperation t n) = n"
| "GetNode (ConflictOperation n c l r) = n"

definition NewConflictOperation :: "string \<Rightarrow> int \<Rightarrow> operation \<Rightarrow> operation \<Rightarrow> operation" where
  "NewConflictOperation n cType leftOp rightOp = ConflictOperation n cType leftOp rightOp"

record endpoint =
  epName :: string
  URI :: string
  asSource :: bool
  asTarget :: bool

record patch =
  uuid :: string
  patchSource :: endpoint
  patchTarget :: endpoint
  mTime :: time
  errs :: "string list"
  ops :: "operation list"

text \<open>
  Modelled from the spec: the JSON form of an operation written by the MarshalJSON methods of
  package merger. A conflict's payload holds the three sub-structures the spec names (a type
  tag, a left operation, a right operation) under the keys unmarshalConflict reads; the key
  names of the kind and the node are this model's.
\<close>

fun opTypeCode :: "OperationType \<Rightarrow> int" where
  "opTypeCode OpCreate = 0"
| "opTypeCode OpUpdate = 1"
| "opTypeCode OpDelete = 2"
| "opTypeCode OpMove = 3"
| "opTypeCode OpConflict = 4"

definition opTypeOfCode :: "int \<Rightarrow> OperationType option" where
  "opTypeOfCode k =
     (if k = 0 then Some OpCreate else if k = 1 then Some OpUpdate
      else if k = 2 then Some OpDelete else if k = 3 then Some OpMove
      else if k = 4 then Some OpConflict else None)"

fun marshalOperation :: "operation \<Rightarrow> json" where
  "marshalOperation (PatchOperation t n) =
     JObj [(''OpType'', JNum (opTypeCode t)), (''Node'', JStr n)]"
| "marshalOperation (ConflictOperation n c l r) =
     JObj [(''OpType'', JNum (opTypeCode OpConflict)), (''Node'', JStr n),
           (''ConflictType'', JNum c),
           (''LeftOp'', marshalOperation l), (''RightOp'', marshalOperation r)]"

text \<open>encoding/json keeps the last of several entries with the same key.\<close>

definition objGet :: "(string \<times> json) list \<Rightarrow> string \<Rightarrow> json option" where
  "objGet kvs k = map_of (rev kvs) k"

text \<open>
  Modelled from the spec: json.Unmarshal into the value of NewOpForUnmarshall. It restores
  the kind and the node and nothing of a conflict's nested fields (those are what
  unmarshalConflict is for).
\<close>

definition unmarshalOperation :: "payload \<Rightarrow> failure + operation" where
  "unmarshalOperation v =
     (case v of
        Invalid s \<Rightarrow> Inl (Error ''invalid character'')
      | Doc (JObj kvs) \<Rightarrow>
          (case (objGet kvs ''OpType'', objGet kvs ''Node'') of
             (Some (JNum k), Some (JStr n)) \<Rightarrow>
               (case opTypeOfCode k of
                  Some t \<Rightarrow> Inr (PatchOperation t n)
                | None \<Rightarrow> Inl (Error ''unknown operation type''))
           | _ \<Rightarrow> Inl (Error ''cannot unmarshal operation''))
      | Doc _ \<Rightarrow> Inl (Error ''cannot unmarshal operation''))"

text \<open>json.Unmarshal into a \<open>map[string]interface{}\<close>: an object, or null (the map stays nil).\<close>

definition unmarshalMap :: "payload \<Rightarrow> failure + (string \<times> json) list" where
  "unmarshalMap v =
     (case v of
        Doc (JObj kvs) \<Rightarrow> Inr kvs
      | Doc JNull \<Rightarrow> Inr []
      | Doc _ \<Rightarrow> Inl (Error ''json: cannot unmarshal into Go value of type map'')
      | Invalid s \<Rightarrow> Inl (Error ''invalid character''))"

subsection \<open>unmarshalConflict\<close>

text \<open>
  The result is Go's pair (operation, error): \<open>Inr op\<close> is \<open>(op, nil)\<close> and \<open>Inl (Error m)\<close> is
  \<open>(nil, err)\<close>. The type assertion \<open>t.(float64)\<close> panics on a value that is not a number.
  \<open>json.Marshal(left)\<close> followed by \<open>json.Unmarshal\<close> is unmarshalling the sub-document.
\<close>

definition unmarshalConflict :: "payload \<Rightarrow> operation \<Rightarrow> failure + operation" where
  "unmarshalConflict data op =
     (if Type op \<noteq> OpConflict then Inr op
      else
        let n = GetNode op in
        case unmarshalMap data of
          Inl err \<Rightarrow> Inl err
        | Inr ii \<Rightarrow>
            (case objGet ii ''ConflictType'' of
               None \<Rightarrow> Inl (Error ''unmarshalling conflict: missing key ConflictType'')
             | Some t \<Rightarrow>
                 (case t of
                    JNum cType \<Rightarrow>
                      (case objGet ii ''LeftOp'' of
                         None \<Rightarrow> Inl (Error ''unmarshalling conflict: missing key LeftOp'')
                       | Some left \<Rightarrow>
                           (case unmarshalOperation (Doc left) of
                              Inl e \<Rightarrow> Inl e
                            | Inr leftOp \<Rightarrow>
                                (case objGet ii ''RightOp'' of
                                   None \<Rightarrow> Inl (Error ''unmarshalling conflict: missing key RightOp'')
                                 | Some right \<Rightarrow>
                                     (case unmarshalOperation (Doc right) of
                                        Inl e \<Rightarrow> Inl e
                                      | Inr rightOp \<Rightarrow>
                                          Inr (NewConflictOperation n cType leftOp rightOp)))))
                  | _ \<Rightarrow> Inl (Panic ''interface conversion: interface {} is not float64''))))"

subsection \<open>fmt.Errorf with a format string and no operands\<close>

text \<open>
  Load rebuilds the stored error text with \<open>fmt.Errorf(string(errValue))\<close>: the stored text is
  the format string. This is the scanner of Go's fmt package (doPrintf) specialised to an
  empty operand list: text is copied up to a percent sign; then flags, an argument index,
  a width, a precision and a verb are read, and since no operand exists the verb is
  reported as missing.
\<close>

definition isDigit :: "char \<Rightarrow> bool" where
  "isDigit c = (48 \<le> (of_char c :: nat) \<and> (of_char c :: nat) \<le> 57)"

definition isFlag :: "char \<Rightarrow> bool" where
  "isFlag c = (c = CHR ''#'' \<or> c = CHR ''0'' \<or> c = CHR ''+'' \<or> c = CHR ''-'' \<or> c = CHR '' '')"

text \<open>parsenum on a window of the format: the number, whether one was read, the rest of
  the window. A number beyond a million gives up and consumes the whole window.\<close>

fun parsenum :: "nat \<Rightarrow> bool \<Rightarrow> string \<Rightarrow> nat \<times> bool \<times> string" where
  "parsenum num isnum [] = (num, isnum, [])"
| "parsenum num isnum (c # cs) =
     (if isDigit c then
        (if num > 1000000 then (0, False, [])
         else parsenum (num * 10 + ((of_char c :: nat) - 48)) True cs)
      else (num, isnum, c # cs))"

text \<open>parseArgNumber on a format starting with an opening bracket: the bytes consumed and
  whether a well-formed index was read.\<close>

definition parseArgNumber :: "string \<Rightarrow> nat \<times> bool" where
  "parseArgNumber fmt =
     (if length fmt < 3 then (1, False)
      else
        let inner = takeWhile (\<lambda>c. c \<noteq> CHR '']'') (tl fmt) in
        if length inner = length (tl fmt) then (1, False)
        else
          (case parsenum 0 False inner of
             (width, ok, rest) \<Rightarrow>
               if ok \<and> rest = [] then (length inner + 2, True)
               else (length inner + 2, False)))"

text \<open>argNumber with no operands: every index is out of range, so goodArgNum drops.
  The result is (goodArgNum, rest of the format, afterIndex).\<close>

definition argNumber :: "bool \<Rightarrow> string \<Rightarrow> bool \<times> string \<times> bool" where
  "argNumber good fmt =
     (case fmt of
        [] \<Rightarrow> (good, fmt, False)
      | c # cs \<Rightarrow>
          if c \<noteq> CHR ''['' then (good, fmt, False)
          else (case parseArgNumber fmt of (wid, ok) \<Rightarrow> (False, drop wid fmt, ok)))"

definition isCont :: "char \<Rightarrow> bool" where
  "isCont c = (128 \<le> (of_char c :: nat) \<and> (of_char c :: nat) \<le> 191)"

text \<open>utf8.DecodeRuneInString followed by writeRune: the bytes written for the verb and the
  number of bytes read. An ill-formed sequence reads one byte and writes U+FFFD.\<close>

definition runeError :: string where
  "runeError = [char_of (239 :: nat), char_of (191 :: nat), char_of (189 :: nat)]"

definition decodeRune :: "string \<Rightarrow> string \<times> nat" where
  "decodeRune s =
     (case s of
        [] \<Rightarrow> (runeError, 1)
      | b0 # r0 \<Rightarrow>
          let x = (of_char b0 :: nat) in
          if x < 128 then ([b0], 1)
          else if 194 \<le> x \<and> x \<le> 223 then
            (case r0 of
               b1 # _ \<Rightarrow> if isCont b1 then ([b0, b1], 2) else (runeError, 1)
             | _ \<Rightarrow> (runeError, 1))
          else if 224 \<le> x \<and> x \<le> 239 then
            (case r0 of
               b1 # b2 # _ \<Rightarrow>
                 let y = (of_char b1 :: nat) in
                 if (if x = 224 then 160 else 128) \<le> y \<and> y \<le> (if x = 237 then 159 else 191)
                    \<and> isCont b2
                 then ([b0, b1, b2], 3) else (runeError, 1)
             | _ \<Rightarrow> (runeError, 1))
          else if 240 \<le> x \<and> x \<le> 244 then
            (case r0 of
               b1 # b2 # b3 # _ \<Rightarrow>
                 let y = (of_char b1 :: nat) in
                 if (if x = 240 then 144 else 128) \<le> y \<and> y \<le> (if x = 244 then 143 else 191)
                    \<and> isCont b2 \<and> isCont b3
                 then ([b0, b1, b2, b3], 4) else (runeError, 1)
             | _ \<Rightarrow> (runeError, 1))
          else (runeError, 1))"

text \<open>One verb, read after its percent sign: the text written and the rest of the format
  (empty after \<open>%!(NOVERB)\<close>, where the scanner stops).\<close>

definition verbSpec :: "string \<Rightarrow> string \<times> string" where
  "verbSpec fmt0 =
     (let f1 = dropWhile isFlag fmt0 in
      case argNumber True f1 of (g1, f2, after1) \<Rightarrow>
      case (case f2 of
              c # cs \<Rightarrow>
                if c = CHR ''*'' then (''%!(BADWIDTH)'', g1, cs, False)
                else (case parsenum 0 False f2 of
                        (w, present, r) \<Rightarrow> ([], g1 \<and> \<not> (after1 \<and> present), r, after1))
            | [] \<Rightarrow> ([], g1, [], after1)) of
        (out1, g2, f3, after2) \<Rightarrow>
      case (case f3 of
              c # cs \<Rightarrow>
                if c = CHR ''.'' then
                  (case argNumber (g2 \<and> \<not> after2) cs of (g, f, after) \<Rightarrow>
                     (case f of
                        d # ds \<Rightarrow>
                          if d = CHR ''*'' then (''%!(BADPREC)'', g, ds, False)
                          else (case parsenum 0 False f of (w, present, r) \<Rightarrow> ([], g, r, after))
                      | [] \<Rightarrow> ([], g, [], after)))
                else ([], g2, f3, after2)
            | [] \<Rightarrow> ([], g2, f3, after2)) of
        (out2, g3, f4, after3) \<Rightarrow>
      case (if \<not> after3 then argNumber g3 f4 else (g3, f4, after3)) of (g4, f5, after4) \<Rightarrow>
      if f5 = [] then (out1 @ out2 @ ''%!(NOVERB)'', [])
      else
        (case decodeRune f5 of (verb, sz) \<Rightarrow>
           if verb = ''%'' then (out1 @ out2 @ ''%'', drop sz f5)
           else if \<not> g4 then (out1 @ out2 @ ''%!'' @ verb @ ''(BADINDEX)'', drop sz f5)
           else (out1 @ out2 @ ''%!'' @ verb @ ''(MISSING)'', drop sz f5)))"

text \<open>The format loop. Every verb consumes at least its percent sign, so the format length
  bounds the number of rounds.\<close>

fun doPrintf :: "nat \<Rightarrow> string \<Rightarrow> string" where
  "doPrintf 0 fmt = takeWhile (\<lambda>c. c \<noteq> CHR ''%'') fmt"
| "doPrintf (Suc k) fmt =
     (let lit = takeWhile (\<lambda>c. c \<noteq> CHR ''%'') fmt;
          rest = dropWhile (\<lambda>c. c \<noteq> CHR ''%'') fmt
      in case rest of
           [] \<Rightarrow> lit
         | _ # after \<Rightarrow> (case verbSpec after of (out, fmt') \<Rightarrow> lit @ out @ doPrintf k fmt'))"

definition Errorf :: "string \<Rightarrow> string" where
  "Errorf fmt = doPrintf (length fmt) fmt"

subsection \<open>The patch contract\<close>

text \<open>
  Modelled from the spec: the methods of merger.Patch that the store calls. A new patch is
  bound to (source, target), empty, and stamped with the current time; SetPatchError
  records the terminal error and, as the comment in Load says, overwrites the internal
  mtime; Enqueue appends; HasErrors reports the errors and whether there is one; Size is
  the operation count; WalkOperations with an empty filter visits every operation in order.
  Enqueue calls methods of its argument, which on Go's nil interface value is a nil
  dereference.
\<close>

definition NewPatch :: "endpoint \<Rightarrow> endpoint \<Rightarrow> time \<Rightarrow> patch" where
  "NewPatch src tgt now =
     \<lparr>uuid = [], patchSource = src, patchTarget = tgt, mTime = now, errs = [], ops = []\<rparr>"

definition SetUUID :: "string \<Rightarrow> patch \<Rightarrow> patch" where
  "SetUUID k p = p\<lparr>uuid := k\<rparr>"

definition GetUUID :: "patch \<Rightarrow> string" where
  "GetUUID p = uuid p"

definition SetPatchError :: "string \<Rightarrow> time \<Rightarrow> patch \<Rightarrow> patch" where
  "SetPatchError e now p = p\<lparr>errs := [e], mTime := now\<rparr>"

definition Stamp :: "time \<Rightarrow> patch \<Rightarrow> patch" where
  "Stamp t p = p\<lparr>mTime := t\<rparr>"

definition GetStamp :: "patch \<Rightarrow> time" where
  "GetStamp p = mTime p"

definition HasErrors :: "patch \<Rightarrow> string list \<times> bool" where
  "HasErrors p = (errs p, errs p \<noteq> [])"

definition Size :: "patch \<Rightarrow> nat" where
  "Size p = length (ops p)"

definition WalkOperations :: "patch \<Rightarrow> operation list" where
  "WalkOperations p = ops p"

definition Enqueue :: "operation option \<Rightarrow> patch \<Rightarrow> failure + patch" where
  "Enqueue operation p =
     (case operation of
        None \<Rightarrow> Inl (Panic ''invalid memory address or nil pointer dereference'')
      | Some op \<Rightarrow> Inr (p\<lparr>ops := ops p @ [op]\<rparr>))"

subsection \<open>The backing store\<close>

text \<open>
  The layout persist writes: under the top-level bucket \<open>patches\<close> one bucket per patch,
  keyed by its UUID, holding the entries \<open>stamp\<close>, \<open>patchError\<close> and \<open>source\<close> and the nested
  bucket \<open>operations\<close>. A bucket is the list of its entries in the order a cursor walks them,
  ascending by key bytes; an entry that Get does not find is None. A stamp entry is
  represented by what \<open>time.Time.UnmarshalJSON\<close> makes of its bytes: a time, the literal
  null, or anything else. Instants are taken within the years that MarshalJSON accepts.
\<close>

datatype stampBytes = StampDoc time | StampNull | StampInvalid string

type_synonym key = "8 word list"

record opsBucket =
  sequence :: "64 word"
  entries :: "(key \<times> payload) list"

record patchBucket =
  timeKey :: "stampBytes option"
  patchErrKey :: "string option"
  patchSourceKey :: "string option"
  opsKey :: "opsBucket option"

record DB =
  opened :: bool
  patches :: "(string \<times> patchBucket) list option"

record PatchStore =
  source :: endpoint
  target :: endpoint
  db :: DB
  lastHasErrors :: bool

fun bucketPut :: "'k::linorder \<Rightarrow> 'v \<Rightarrow> ('k \<times> 'v) list \<Rightarrow> ('k \<times> 'v) list" where
  "bucketPut k v [] = [(k, v)]"
| "bucketPut k v ((k', v') # r) =
     (if k < k' then (k, v) # (k', v') # r
      else if k = k' then (k, v) # r
      else (k', v') # bucketPut k v r)"

definition bucketGet :: "('k \<times> 'v) list \<Rightarrow> 'k \<Rightarrow> 'v option" where
  "bucketGet b k = map_of b k"

definition DeleteBucket :: "'k \<Rightarrow> ('k \<times> 'v) list \<Rightarrow> ('k \<times> 'v) list" where
  "DeleteBucket k b = filter (\<lambda>kv. fst kv \<noteq> k) b"

definition UnmarshalJSON :: "stampBytes option \<Rightarrow> time \<Rightarrow> failure + time" where
  "UnmarshalJSON data t =
     (case data of
        None \<Rightarrow> Inl (Error ''unexpected end of JSON input'')
      | Some (StampDoc t') \<Rightarrow> Inr t'
      | Some StampNull \<Rightarrow> Inr t
      | Some (StampInvalid s) \<Rightarrow> Inl (Error ''Time.UnmarshalJSON: input is not a JSON string''))"

definition MarshalJSON :: "time \<Rightarrow> stampBytes" where
  "MarshalJSON t = StampDoc t"

subsection \<open>Load\<close>

text \<open>
  The inner loop of Load over the operation records of one patch, with the log it writes.
  When unmarshalConflict fails, the assignment \<open>operation, err = ...\<close> has set operation to
  nil; the error is logged and the statement after the inner \<open>if\<close>, \<open>patch.Enqueue(operation)\<close>,
  still runs.
\<close>

fun loadOps :: "payload list \<Rightarrow> patch \<times> string list \<Rightarrow> failure + (patch \<times> string list)" where
  "loadOps [] acc = Inr acc"
| "loadOps (v # vs) (p, lg) =
     (case unmarshalOperation v of
        Inr operation \<Rightarrow>
          (case unmarshalConflict v operation of
             Inl (Panic m) \<Rightarrow> Inl (Panic m)
           | Inl (Error m) \<Rightarrow>
               (case Enqueue None p of
                  Inl f \<Rightarrow> Inl f
                | Inr p' \<Rightarrow> loadOps vs (p', lg @ [''Cannot unmarshall conflict operation:'' @ m]))
           | Inr operation' \<Rightarrow>
               (case Enqueue (Some operation') p of
                  Inl f \<Rightarrow> Inl f
                | Inr p' \<Rightarrow> loadOps vs (p', lg)))
      | Inl (Error m) \<Rightarrow> loadOps vs (p, lg @ [''Cannot unmarshall operation:'' @ m])
      | Inl (Panic m) \<Rightarrow> Inl (Panic m))"

text \<open>
  The body of the outer loop: one patch rebuilt from its bucket. \<open>clock\<close> gives the successive
  readings of time.Now and \<open>n\<close> counts the readings taken so far. The type assertions to
  PathSyncSource and PathSyncTarget panic on an endpoint without that capability, and a
  missing operations bucket is a nil pointer.
\<close>

definition loadPatch ::
  "(nat \<Rightarrow> time) \<Rightarrow> endpoint \<Rightarrow> endpoint \<Rightarrow> string \<Rightarrow> patchBucket \<Rightarrow> nat \<times> string list
     \<Rightarrow> failure + (patch \<times> nat \<times> string list)" where
  "loadPatch clock src tgt k b st =
     (case st of (n, lg) \<Rightarrow>
      if \<not> (asSource src \<and> asTarget tgt) then Inl (Panic ''interface conversion'')
      else
        let p0 = SetUUID k (NewPatch src tgt (clock n));
            n1 = n + 1;
            (p1, n2) = (case patchErrKey b of
                          Some errValue \<Rightarrow> (SetPatchError (Errorf errValue) (clock n1) p0, n1 + 1)
                        | None \<Rightarrow> (p0, n1))
        in
        if (case patchSourceKey b of Some s \<Rightarrow> s \<noteq> URI src | None \<Rightarrow> False)
           \<and> \<not> (asSource tgt \<and> asTarget src)
        then Inl (Panic ''interface conversion'')
        else
          let p2 = (case patchSourceKey b of
                      Some s \<Rightarrow>
                        if s \<noteq> URI src then p1\<lparr>patchSource := tgt, patchTarget := src\<rparr> else p1
                    | None \<Rightarrow> p1);
              t = clock n2;
              n3 = n2 + 1;
              p3 = (case UnmarshalJSON (timeKey b) t of
                      Inr t' \<Rightarrow> Stamp t' p2
                    | Inl err \<Rightarrow> p2)
          in
          case opsKey b of
            None \<Rightarrow> Inl (Panic ''invalid memory address or nil pointer dereference'')
          | Some opsB \<Rightarrow>
              (case loadOps (map snd (entries opsB)) (p3, lg) of
                 Inl f \<Rightarrow> Inl f
               | Inr (p4, lg') \<Rightarrow> Inr (p4, n3, lg')))"

text \<open>The outer loop: the cursor over the top-level bucket, appending to \<open>stamps\<close>.\<close>

fun loadAll ::
  "(nat \<Rightarrow> time) \<Rightarrow> endpoint \<Rightarrow> endpoint \<Rightarrow> (string \<times> patchBucket) list
     \<Rightarrow> patch list \<times> nat \<times> string list \<Rightarrow> failure + (patch list \<times> nat \<times> string list)" where
  "loadAll clock src tgt [] acc = Inr acc"
| "loadAll clock src tgt ((k, b) # r) (stamps, n, lg) =
     (case loadPatch clock src tgt k b (n, lg) of
        Inl f \<Rightarrow> Inl f
      | Inr (p, n', lg') \<Rightarrow> loadAll clock src tgt r (stamps @ [p], n', lg'))"

text \<open>patchSorter.Less: the patch at i goes before the patch at j when it is more recent.\<close>

definition Less :: "patch \<Rightarrow> patch \<Rightarrow> bool" where
  "Less p q = (GetStamp p > GetStamp q)"

text \<open>
  sort.Sort with patchSorter. The library's sort is not stable; it is represented by
  insertion sort on Less, which is what the library runs on short slices. Among patches
  of equal stamp the order is the model's choice.
\<close>

fun insertPatch :: "patch \<Rightarrow> patch list \<Rightarrow> patch list" where
  "insertPatch x [] = [x]"
| "insertPatch x (y # ys) = (if Less x y then x # y # ys else y # insertPatch x ys)"

definition sortStamps :: "patch list \<Rightarrow> patch list" where
  "sortStamps xs = foldl (\<lambda>acc x. insertPatch x acc) [] xs"

definition computePrunes :: "patch list \<Rightarrow> string list" where
  "computePrunes stamps =
     (if length stamps > 100 then map GetUUID (drop 100 stamps) else [])"

text \<open>
  The page loop \<open>for i, patch := range stamps\<close>. offset and limit are Go ints (64 bits,
  signed): \<open>offset+limit-1\<close> wraps around.
\<close>

fun pageLoop :: "64 word \<Rightarrow> 64 word \<Rightarrow> nat \<Rightarrow> patch list \<Rightarrow> patch list \<Rightarrow> patch list" where
  "pageLoop offset limit i [] acc = acc"
| "pageLoop offset limit i (p # ps) acc =
     (if int i < sint offset then pageLoop offset limit (Suc i) ps acc
      else
        let acc' = acc @ [p] in
        if int i \<ge> sint (offset + limit - 1) then acc'
        else pageLoop offset limit (Suc i) ps acc')"

record loadResult =
  loaded :: "patch list"
  toPrune :: "string list"
  logged :: "string list"

text \<open>
  Load up to the start of the pruning goroutine. \<open>db.View\<close> fails on a database that is not
  open; a missing top-level bucket gives no patches.
\<close>

definition Load :: "(nat \<Rightarrow> time) \<Rightarrow> PatchStore \<Rightarrow> 64 word \<Rightarrow> 64 word \<Rightarrow> failure + loadResult" where
  "Load clock p offset limit =
     (if \<not> opened (db p) then Inl (Error ''database not open'')
      else
        case loadAll clock (source p) (target p)
               (case patches (db p) of None \<Rightarrow> [] | Some bucket \<Rightarrow> bucket) ([], 0, []) of
          Inl f \<Rightarrow> Inl f
        | Inr (stamps0, n, lg) \<Rightarrow>
            let stamps = sortStamps stamps0;
                prunes = computePrunes stamps
            in Inr \<lparr>loaded = pageLoop offset limit 0 stamps [], toPrune = prunes, logged = lg\<rparr>)"

text \<open>
  The pruning goroutine, run to completion on the store it finds: \<open>db.Update\<close> deleting the
  buckets named in prunes. Its errors are logged or dropped.
\<close>

definition prune :: "string list \<Rightarrow> DB \<Rightarrow> DB" where
  "prune prunes d =
     (if \<not> opened d then d
      else case patches d of
             None \<Rightarrow> d
           | Some bucket \<Rightarrow> d\<lparr>patches := Some (foldl (\<lambda>b uuid. DeleteBucket uuid b) bucket prunes)\<rparr>)"

subsection \<open>persist and the worker\<close>

text \<open>itob: the 8-byte big-endian representation of v, most significant byte first.\<close>

definition itob :: "64 word \<Rightarrow> key" where
  "itob v = map (\<lambda>i. ucast (drop_bit (8 * (7 - i)) v)) [0..<8]"

text \<open>
  Modelled from the spec: json.Marshal of an operation goes through package merger's
  MarshalJSON; in this model it always succeeds.
\<close>

definition jsonMarshal :: "operation \<Rightarrow> failure + payload" where
  "jsonMarshal operation = Inr (Doc (marshalOperation operation))"

text \<open>The callback of WalkOperations in persist: NextSequence, then Put under itob of it.\<close>

fun putOperations :: "operation list \<Rightarrow> opsBucket \<Rightarrow> opsBucket" where
  "putOperations [] b = b"
| "putOperations (operation # r) b =
     (case jsonMarshal operation of
        Inr data \<Rightarrow>
          let id = sequence b + 1
          in putOperations r (b\<lparr>sequence := id, entries := bucketPut (itob id) data (entries b)\<rparr>)
      | Inl err \<Rightarrow> putOperations r b)"

text \<open>
  The \<open>db.Update\<close> call of persist with its closure: the error Update returns and the database
  afterwards. Update fails on a database that is not open, and it rolls back when the
  closure returns an error, which CreateBucketIfNotExists does for an empty bucket name.
\<close>

definition persistTx :: "DB \<Rightarrow> patch \<Rightarrow> failure option \<times> DB" where
  "persistTx d patch =
     (if \<not> opened d then (Some (Error ''database not open''), d)
      else
        let bucket = (case patches d of None \<Rightarrow> [] | Some b \<Rightarrow> b);
            bName = GetUUID patch;
            bucket' = (if bucketGet bucket bName \<noteq> None then DeleteBucket bName bucket else bucket)
        in
        if bName = [] then (Some (Error ''bucket name required''), d)
        else
          let mt = MarshalJSON (GetStamp patch);
              b1 = \<lparr>timeKey = Some mt, patchErrKey = None, patchSourceKey = None, opsKey = None\<rparr>;
              b2 = (case HasErrors patch of
                      (es, ok) \<Rightarrow>
                        if ok \<and> length es > 0 then b1\<lparr>patchErrKey := Some (hd es)\<rparr> else b1);
              b3 = b2\<lparr>patchSourceKey := Some (URI (patchSource patch))\<rparr>;
              opsB = putOperations (WalkOperations patch) \<lparr>sequence = 0, entries = []\<rparr>;
              b4 = b3\<lparr>opsKey := Some opsB\<rparr>
          in (None, d\<lparr>patches := Some (bucketPut bName b4 bucket')\<rparr>))"

text \<open>
  persist. Go's persist returns nothing; the second component records which way it went:
  None when it returned before the transaction, otherwise the result of \<open>db.Update\<close>, which
  the code drops.
\<close>

definition persist :: "PatchStore \<Rightarrow> patch \<Rightarrow> PatchStore \<times> failure option option" where
  "persist p patch =
     (case HasErrors patch of
        (_, has) \<Rightarrow>
          if Size patch = 0 \<and> \<not> has \<and> \<not> lastHasErrors p then (p, None)
          else
            let p' = p\<lparr>lastHasErrors := has\<rparr>
            in case persistTx (db p') patch of
                 (err, d) \<Rightarrow> (p'\<lparr>db := d\<rparr>, Some err))"

text \<open>
  Store and PublishPatch hand the patch to the worker goroutine, which runs persist on each
  patch it receives, one at a time in the order received. Both are declared without a
  result: the model gives the store after the worker has taken the patch through persist,
  and as the error handed back to the caller None, since there is nothing to carry one.
\<close>

definition Store :: "PatchStore \<Rightarrow> patch \<Rightarrow> PatchStore \<times> failure option" where
  "Store p patch = (fst (persist p patch), None)"

definition PublishPatch :: "PatchStore \<Rightarrow> patch \<Rightarrow> PatchStore \<times> failure option" where
  "PublishPatch p patch = (fst (persist p patch), None)"

fun worker :: "PatchStore \<Rightarrow> patch list \<Rightarrow> PatchStore" where
  "worker p [] = p"
| "worker p (patch # r) = worker (fst (persist p patch)) r"

text \<open>
  NewPatchStore after \<open>bbolt.Open\<close> has given the database: the flag is seeded from the most
  recent patch, if Load gives one.
\<close>

definition NewPatchStore :: "(nat \<Rightarrow> time) \<Rightarrow> DB \<Rightarrow> endpoint \<Rightarrow> endpoint \<Rightarrow> failure + PatchStore" where
  "NewPatchStore clock d src tgt =
     (let p = \<lparr>source = src, target = tgt, db = d, lastHasErrors = False\<rparr>
      in case Load clock p 0 1 of
           Inr r \<Rightarrow>
             (case loaded r of
                l0 # _ \<Rightarrow> Inr (p\<lparr>lastHasErrors := snd (HasErrors l0)\<rparr>)
              | [] \<Rightarrow> Inr p)
         | Inl (Error m) \<Rightarrow> Inr p
         | Inl (Panic m) \<Rightarrow> Inl (Panic m))"

text \<open>
  The number of readings of the clock that Load takes while it rebuilds the patches of a
  list of buckets: per patch one in NewPatch, one for the local \<open>t\<close>, and one in
  SetPatchError when an error is stored.
\<close>

definition readings :: "(string \<times> patchBucket) list \<Rightarrow> nat" where
  "readings bs = sum_list (map (\<lambda>kb. case patchErrKey (snd kb) of None \<Rightarrow> 2 | Some e \<Rightarrow> 3) bs)"

section \<open>Example stores and patches\<close>

definition epA :: endpoint where
  "epA = \<lparr>epName = ''left'', URI = ''fs:///data/left'', asSource = True, asTarget = True\<rparr>"

definition epB :: endpoint where
  "epB = \<lparr>epName = ''right'', URI = ''http://cells/right'', asSource = True, asTarget = True\<rparr>"

definition clock0 :: "nat \<Rightarrow> time" where
  "clock0 n = 1000 + int n"

definition okRecord :: "string \<Rightarrow> payload" where
  "okRecord n = Doc (JObj [(''OpType'', JNum 0), (''Node'', JStr n)])"

text \<open>A record tagged as a conflict whose payload has no LeftOp.\<close>

definition conflictNoLeft :: payload where
  "conflictNoLeft =
     Doc (JObj [(''OpType'', JNum 4), (''Node'', JStr ''c''), (''ConflictType'', JNum 1),
                (''RightOp'', JObj [(''OpType'', JNum 2), (''Node'', JStr ''c'')])])"

definition bucketNoLeft :: patchBucket where
  "bucketNoLeft =
     \<lparr>timeKey = Some (StampDoc 5), patchErrKey = None, patchSourceKey = Some ''fs:///data/left'',
      opsKey = Some \<lparr>sequence = 3,
                     entries = [(itob 1, okRecord ''a''), (itob 2, conflictNoLeft),
                                (itob 3, okRecord ''b'')]\<rparr>\<rparr>"

definition storeNoLeft :: PatchStore where
  "storeNoLeft =
     \<lparr>source = epA, target = epB,
      db = \<lparr>opened = True, patches = Some [(''u1'', bucketNoLeft)]\<rparr>, lastHasErrors = False\<rparr>"

definition storeEmpty :: PatchStore where
  "storeEmpty =
     \<lparr>source = epA, target = epB, db = \<lparr>opened = True, patches = None\<rparr>, lastHasErrors = False\<rparr>"

definition storeClosed :: PatchStore where
  "storeClosed =
     \<lparr>source = epA, target = epB, db = \<lparr>opened = False, patches = None\<rparr>, lastHasErrors = False\<rparr>"

text \<open>A patch that reports two errors, the first with a percent sign in its text.\<close>

definition patchTwoErrors :: patch where
  "patchTwoErrors =
     \<lparr>uuid = ''u7'', patchSource = epA, patchTarget = epB, mTime = 7,
      errs = [''disk 100%'', ''retry failed''], ops = [PatchOperation OpCreate ''a'']\<rparr>"

text \<open>A patch with no operation and no error.\<close>

definition patchIdle :: patch where
  "patchIdle =
     \<lparr>uuid = ''u8'', patchSource = epA, patchTarget = epB, mTime = 8, errs = [], ops = []\<rparr>"

text \<open>A store of four patches without operations, stamped 10, 40, 20 and 30.\<close>

definition bucketAt :: "time \<Rightarrow> patchBucket" where
  "bucketAt t =
     \<lparr>timeKey = Some (StampDoc t), patchErrKey = None, patchSourceKey = Some ''fs:///data/left'',
      opsKey = Some \<lparr>sequence = 0, entries = []\<rparr>\<rparr>"

definition storeFour :: PatchStore where
  "storeFour =
     \<lparr>source = epA, target = epB,
      db = \<lparr>opened = True,
            patches = Some [(''p1'', bucketAt 10), (''p2'', bucketAt 40),
                            (''p3'', bucketAt 20), (''p4'', bucketAt 30)]\<rparr>,
      lastHasErrors = False\<rparr>"

text \<open>The largest and the smallest Go int.\<close>

definition maxInt :: "64 word" where
  "maxInt = 9223372036854775807"

definition minInt :: "64 word" where
  "minInt = 9223372036854775808"

text \<open>
  A store opened with (epA, epB) holding one patch recorded under epB as its source, with
  a stored error, and one patch recorded under epA whose stamp entry is not a time.
\<close>

definition bucketSwapped :: patchBucket where
  "bucketSwapped =
     \<lparr>timeKey = Some (StampDoc 50), patchErrKey = Some ''timeout'',
      patchSourceKey = Some ''http://cells/right'',
      opsKey = Some \<lparr>sequence = 1, entries = [(itob 1, okRecord ''a'')]\<rparr>\<rparr>"

definition bucketBadStamp :: patchBucket where
  "bucketBadStamp =
     \<lparr>timeKey = Some (StampInvalid ''yesterday''), patchErrKey = None,
      patchSourceKey = Some ''fs:///data/left'',
      opsKey = Some \<lparr>sequence = 1, entries = [(itob 1, okRecord ''b'')]\<rparr>\<rparr>"

definition storeMixed :: PatchStore where
  "storeMixed =
     \<lparr>source = epA, target = epB,
      db = \<lparr>opened = True,
            patches = Some [(''m1'', bucketSwapped), (''m2'', bucketBadStamp)]\<rparr>,
      lastHasErrors = False\<rparr>"

definition loadedMixed :: "patch list" where
  "loadedMixed = (case Load clock0 storeMixed 0 10 of Inr r \<Rightarrow> loaded r | Inl f \<Rightarrow> [])"

text \<open>A store of 102 patches without operations; the patch with key number i is stamped i.\<close>

definition manyKey :: "nat \<Rightarrow> string" where
  "manyKey i = replicate (Suc i) (CHR ''k'')"

definition storeMany :: PatchStore where
  "storeMany =
     \<lparr>source = epA, target = epB,
      db = \<lparr>opened = True,
            patches = Some (map (\<lambda>i. (manyKey i, bucketAt (int i))) [0..<102])\<rparr>,
      lastHasErrors = False\<rparr>"

section \<open>Properties\<close>

subsection \<open>Conflict records with a missing field\<close>

lemma loadOps_failed_conflict:
  assumes "unmarshalOperation v = Inr operation"
    and "unmarshalConflict v operation = Inl (Error m)"
  shows "loadOps (v # vs) (p, lg) = Inl (Panic ''invalid memory address or nil pointer dereference'')"
  using assms by (simp add: Enqueue_def)

text \<open>
  C1. The claim: a record tagged as a conflict that lacks one of ConflictType, LeftOp,
  RightOp is logged and skipped, and the patch loads with its other operations. On the
  store \<open>storeNoLeft\<close>, whose one patch holds a well-formed record, a conflict record without
  LeftOp and another well-formed record, unmarshalConflict returns the error
  \<open>missing key LeftOp\<close>, the error is logged, and the nil operation is enqueued all the same:
  Load ends in a nil dereference and returns no patch.
\<close>

theorem Load_conflict_missing_LeftOp_panics:
  "unmarshalConflict conflictNoLeft (PatchOperation OpConflict ''c'')
     = Inl (Error ''unmarshalling conflict: missing key LeftOp'')
   \<and> Load clock0 storeNoLeft 0 10
     = Inl (Panic ''invalid memory address or nil pointer dereference'')"
  by code_simp

subsection \<open>Errors of the persist transaction\<close>

lemma persistTx_failure_keeps_db:
  "fst (persistTx d patch) = Some e \<Longrightarrow> snd (persistTx d patch) = d"
  by (simp add: persistTx_def Let_def split: if_splits prod.splits)

text \<open>
  C8, as stated: a transaction failure during persist is surfaced to the caller of Store or
  PublishPatch. On a closed database the transaction of persist fails with
  \<open>database not open\<close>, and the caller of Store and of PublishPatch is handed no error.
\<close>

theorem Store_drops_persist_failure_example:
  "snd (persist storeClosed patchTwoErrors) = Some (Some (Error ''database not open''))
   \<and> snd (Store storeClosed patchTwoErrors) = None
   \<and> snd (PublishPatch storeClosed patchTwoErrors) = None"
  by code_simp

text \<open>
  C8, amended: Store and PublishPatch never hand an error to their caller. When the
  transaction of persist fails, the failure is dropped: the content of the database is
  what it was, only the last-had-error flag is set to this patch's error status, and the
  worker goes on with the submissions that follow.
\<close>

theorem persist_failure_is_dropped:
  "snd (Store P patch) = None \<and> snd (PublishPatch P patch) = None
   \<and> (snd (persist P patch) = Some (Some e) \<longrightarrow>
        db (fst (Store P patch)) = db P
        \<and> lastHasErrors (fst (Store P patch)) = snd (HasErrors patch))
   \<and> worker P (patch # rest) = worker (fst (Store P patch)) rest"
proof -
  have "snd (persist P patch) = Some (Some e) \<Longrightarrow>
        db (fst (persist P patch)) = db P
        \<and> lastHasErrors (fst (persist P patch)) = snd (HasErrors patch)"
    using persistTx_failure_keeps_db[of "db P" patch e]
    by (auto simp: persist_def Let_def split: prod.splits if_splits)
  then show ?thesis by (simp add: Store_def PublishPatch_def)
qed

theorem persist_failure_is_dropped_witness:
  "snd (persist storeClosed patchTwoErrors) = Some (Some (Error ''database not open''))
   \<and> db (fst (Store storeClosed patchTwoErrors)) = db storeClosed
   \<and> lastHasErrors (fst (Store storeClosed patchTwoErrors)) = snd (HasErrors patchTwoErrors)
   \<and> snd (Store storeClosed patchTwoErrors) = None
   \<and> worker storeClosed [patchTwoErrors, patchTwoErrors]
       = worker (fst (Store storeClosed patchTwoErrors)) [patchTwoErrors]"
proof -
  have h: "snd (persist storeClosed patchTwoErrors) = Some (Some (Error ''database not open''))"
    by code_simp
  from persist_failure_is_dropped
         [of storeClosed patchTwoErrors "Error ''database not open''" "[patchTwoErrors]"] h
  show ?thesis by blast
qed

subsection \<open>The stored error text\<close>

lemma doPrintf_no_percent:
  assumes "CHR ''%'' \<notin> set m"
  shows "doPrintf k m = m"
proof -
  have t: "takeWhile (\<lambda>c. c \<noteq> CHR ''%'') m = m"
    using assms by auto
  have d: "dropWhile (\<lambda>c. c \<noteq> CHR ''%'') m = []"
    using assms by auto
  show ?thesis by (cases k) (simp_all add: t d)
qed

lemma Errorf_no_percent: "CHR ''%'' \<notin> set m \<Longrightarrow> Errorf m = m"
  by (simp add: Errorf_def doPrintf_no_percent)

text \<open>
  C10. The claim: of a patch with several errors only the first is written, and the loaded
  patch carries one error whose text equals that first error. \<open>patchTwoErrors\<close> reports
  \<open>disk 100%\<close> and \<open>retry failed\<close>; persisted into an empty store and loaded, it carries
  the single error \<open>disk 100%!(NOVERB)\<close>: Load passes the stored text to fmt.Errorf as a
  format string, and the text ends in a percent sign.
\<close>

theorem Load_mangles_percent_in_error:
  "(case Load clock0 (fst (persist storeEmpty patchTwoErrors)) 0 10 of
      Inr r \<Rightarrow> map errs (loaded r) | Inl f \<Rightarrow> [])
   = [[''disk 100%!(NOVERB)'']]"
  by code_simp

subsection \<open>The skip policy of persist\<close>

lemma bucketGet_bucketPut: "bucketGet (bucketPut k v b) k = Some v"
  by (induction b) (auto simp: bucketGet_def)

lemma persistTx_success:
  assumes "opened d" "uuid patch \<noteq> []"
  shows "\<exists>bucket b. persistTx d patch = (None, d\<lparr>patches := Some bucket\<rparr>)
           \<and> bucketGet bucket (uuid patch) = Some b
           \<and> timeKey b = Some (MarshalJSON (GetStamp patch))
           \<and> patchErrKey b = (case errs patch of [] \<Rightarrow> None | e # _ \<Rightarrow> Some e)
           \<and> patchSourceKey b = Some (URI (patchSource patch))
           \<and> opsKey b = Some (putOperations (ops patch) \<lparr>sequence = 0, entries = []\<rparr>)"
  using assms
  by (auto simp: persistTx_def Let_def GetUUID_def HasErrors_def WalkOperations_def bucketGet_bucketPut
      split: list.splits)

text \<open>
  C4. The persistence worker skips a submitted patch exactly when the patch has no
  operation, reports no error, and the last-had-error flag is false; a skipped patch
  changes nothing. Every other patch goes through the transaction, which on an open
  database and a non-empty UUID leaves the patch's record in the store, and the flag
  becomes exactly this patch's error status. So after a patch that reports an error the
  next patch, whatever it is, is not skipped.
\<close>

theorem persist_skip_policy:
  "(snd (persist P patch) = None
      \<longleftrightarrow> Size patch = 0 \<and> \<not> snd (HasErrors patch) \<and> \<not> lastHasErrors P)
   \<and> (snd (persist P patch) = None \<longrightarrow> fst (persist P patch) = P)
   \<and> (snd (persist P patch) \<noteq> None \<longrightarrow>
         lastHasErrors (fst (persist P patch)) = snd (HasErrors patch)
         \<and> db (fst (persist P patch)) = snd (persistTx (db P) patch)
         \<and> snd (persist P patch) = Some (fst (persistTx (db P) patch)))
   \<and> (snd (persist P patch) \<noteq> None \<and> opened (db P) \<and> uuid patch \<noteq> [] \<longrightarrow>
         (\<exists>bucket b. patches (db (fst (persist P patch))) = Some bucket
            \<and> bucketGet bucket (uuid patch) = Some b
            \<and> opsKey b = Some (putOperations (ops patch) \<lparr>sequence = 0, entries = []\<rparr>)))
   \<and> (snd (HasErrors patch) \<longrightarrow> snd (persist (fst (persist P patch)) nxt) \<noteq> None)"
proof -
  have a: "snd (persist P patch) = None
      \<longleftrightarrow> Size patch = 0 \<and> \<not> snd (HasErrors patch) \<and> \<not> lastHasErrors P"
    by (auto simp: persist_def Let_def split: prod.splits)
  have b: "snd (persist P patch) = None \<longrightarrow> fst (persist P patch) = P"
    by (auto simp: persist_def Let_def split: prod.splits if_splits)
  have c: "snd (persist P patch) \<noteq> None \<longrightarrow>
         lastHasErrors (fst (persist P patch)) = snd (HasErrors patch)
         \<and> db (fst (persist P patch)) = snd (persistTx (db P) patch)
         \<and> snd (persist P patch) = Some (fst (persistTx (db P) patch))"
    by (auto simp: persist_def Let_def split: prod.splits if_splits)
  have d: "snd (persist P patch) \<noteq> None \<and> opened (db P) \<and> uuid patch \<noteq> [] \<longrightarrow>
         (\<exists>bucket b. patches (db (fst (persist P patch))) = Some bucket
            \<and> bucketGet bucket (uuid patch) = Some b
            \<and> opsKey b = Some (putOperations (ops patch) \<lparr>sequence = 0, entries = []\<rparr>))"
  proof (intro impI, elim conjE)
    assume n: "snd (persist P patch) \<noteq> None" and o: "opened (db P)" and u: "uuid patch \<noteq> []"
    from persistTx_success[OF o u] obtain bucket b where
      tx: "persistTx (db P) patch = (None, (db P)\<lparr>patches := Some bucket\<rparr>)"
      and g: "bucketGet bucket (uuid patch) = Some b"
      and k: "opsKey b = Some (putOperations (ops patch) \<lparr>sequence = 0, entries = []\<rparr>)"
      by blast
    from c n have "db (fst (persist P patch)) = snd (persistTx (db P) patch)" by blast
    with tx g k show "\<exists>bucket b. patches (db (fst (persist P patch))) = Some bucket
            \<and> bucketGet bucket (uuid patch) = Some b
            \<and> opsKey b = Some (putOperations (ops patch) \<lparr>sequence = 0, entries = []\<rparr>)"
      by simp
  qed
  have e: "snd (HasErrors patch) \<longrightarrow> snd (persist (fst (persist P patch)) nxt) \<noteq> None"
    by (auto simp: persist_def Let_def split: prod.splits if_splits)
  from a b c d e show ?thesis by blast
qed

theorem persist_skip_policy_witness:
  "snd (persist storeEmpty patchIdle) = None
   \<and> fst (persist storeEmpty patchIdle) = storeEmpty
   \<and> snd (persist storeEmpty patchTwoErrors) \<noteq> None
   \<and> lastHasErrors (fst (persist storeEmpty patchTwoErrors))
   \<and> snd (persist (fst (persist storeEmpty patchTwoErrors)) patchIdle) \<noteq> None
   \<and> (\<exists>bucket b. patches (db (fst (persist storeEmpty patchTwoErrors))) = Some bucket
         \<and> bucketGet bucket ''u7'' = Some b)"
proof -
  have h1: "Size patchIdle = 0 \<and> \<not> snd (HasErrors patchIdle) \<and> \<not> lastHasErrors storeEmpty"
    by code_simp
  have h2: "snd (HasErrors patchTwoErrors)" "opened (db storeEmpty)" "uuid patchTwoErrors = ''u7''"
    by code_simp+
  from persist_skip_policy[of storeEmpty patchIdle patchIdle] h1
  have s1: "snd (persist storeEmpty patchIdle) = None \<and> fst (persist storeEmpty patchIdle) = storeEmpty"
    by blast
  from persist_skip_policy[of storeEmpty patchTwoErrors patchIdle] h2
  have s2: "snd (persist storeEmpty patchTwoErrors) \<noteq> None
   \<and> lastHasErrors (fst (persist storeEmpty patchTwoErrors))
   \<and> snd (persist (fst (persist storeEmpty patchTwoErrors)) patchIdle) \<noteq> None
   \<and> (\<exists>bucket b. patches (db (fst (persist storeEmpty patchTwoErrors))) = Some bucket
         \<and> bucketGet bucket ''u7'' = Some b)"
    by auto
  from s1 s2 show ?thesis by blast
qed

subsection \<open>The page loop\<close>

lemma sint_bound_no_wrap:
  fixes offset limit :: "64 word"
  assumes "- (2 ^ 63) \<le> sint offset + sint limit - 1" "sint offset + sint limit - 1 < 2 ^ 63"
  shows "sint (offset + limit - 1) = sint offset + sint limit - 1"
proof -
  have one: "signed_take_bit 63 (1 :: int) = 1"
    by (simp add: signed_take_bit_int_eq_self)
  have "sint (offset + limit - 1)
          = signed_take_bit 63 (signed_take_bit 63 (sint offset + sint limit) - signed_take_bit 63 1)"
    by (simp add: sint_word_ariths one)
  also have "\<dots> = signed_take_bit 63 (sint offset + sint limit - 1)"
    by (rule signed_take_bit_diff)
  finally have "sint (offset + limit - 1) = signed_take_bit 63 (sint offset + sint limit - 1)" .
  also have "\<dots> = sint offset + sint limit - 1"
    using assms by (simp add: signed_take_bit_int_eq_self)
  finally show ?thesis .
qed

lemma pageLoop_eq:
  "pageLoop offset limit i xs acc
     = acc @ take (nat (max (max (int i) (sint offset)) (sint (offset + limit - 1))
                        - max (int i) (sint offset) + 1))
                  (drop (nat (max (int i) (sint offset) - int i)) xs)"
proof (induction xs arbitrary: i acc)
  case Nil
  then show ?case by simp
next
  case (Cons p ps)
  show ?case
  proof (cases "int i < sint offset")
    case True
    then have m: "max (int (Suc i)) (sint offset) = sint offset" "max (int i) (sint offset) = sint offset"
      by auto
    have d: "nat (sint offset - int i) = Suc (nat (sint offset - int (Suc i)))"
      using True by auto
    show ?thesis using True Cons.IH[of "Suc i" acc] by (simp only: pageLoop.simps m d drop_Suc_Cons if_True)
  next
    case False
    then have m: "max (int i) (sint offset) = int i" "max (int (Suc i)) (sint offset) = int (Suc i)"
      by auto
    show ?thesis
    proof (cases "int i \<ge> sint (offset + limit - 1)")
      case True
      with False show ?thesis by (simp add: m Let_def max_def)
    next
      case ge: False
      then have t: "nat (sint (offset + limit - 1) - int i + 1)
                  = Suc (nat (sint (offset + limit - 1) - int (Suc i) + 1))"
        by auto
      show ?thesis using False ge Cons.IH[of "Suc i" "acc @ [p]"]
        by (simp add: m Let_def max_def t del: of_nat_Suc)
    qed
  qed
qed

subsection \<open>Sorting and rebuilding\<close>

lemma set_insertPatch: "set (insertPatch x ys) = insert x (set ys)"
  by (induction ys) auto

lemma length_insertPatch: "length (insertPatch x ys) = Suc (length ys)"
  by (induction ys) auto

lemma sorted_insertPatch:
  "sorted_wrt (\<lambda>p q. mTime p \<ge> mTime q) ys \<Longrightarrow> sorted_wrt (\<lambda>p q. mTime p \<ge> mTime q) (insertPatch x ys)"
  by (induction ys) (auto simp: Less_def GetStamp_def set_insertPatch)

lemma foldl_insertPatch:
  "set (foldl (\<lambda>acc x. insertPatch x acc) acc xs) = set acc \<union> set xs
   \<and> length (foldl (\<lambda>acc x. insertPatch x acc) acc xs) = length acc + length xs
   \<and> (sorted_wrt (\<lambda>p q. mTime p \<ge> mTime q) acc \<longrightarrow>
        sorted_wrt (\<lambda>p q. mTime p \<ge> mTime q) (foldl (\<lambda>acc x. insertPatch x acc) acc xs))"
  by (induction xs arbitrary: acc) (auto simp: set_insertPatch length_insertPatch sorted_insertPatch)

lemma set_sortStamps: "set (sortStamps xs) = set xs"
  and length_sortStamps: "length (sortStamps xs) = length xs"
  and sorted_sortStamps: "sorted_wrt (\<lambda>p q. mTime p \<ge> mTime q) (sortStamps xs)"
  using foldl_insertPatch[of "[]" xs] by (simp_all add: sortStamps_def)

lemma map_uuid_insertPatch:
  "distinct (map uuid (x # ys)) \<Longrightarrow> distinct (map uuid (insertPatch x ys))"
  by (induction ys) (auto simp: set_insertPatch)

lemma distinct_foldl_insertPatch:
  "distinct (map uuid (acc @ xs)) \<Longrightarrow> distinct (map uuid (foldl (\<lambda>acc x. insertPatch x acc) acc xs))"
proof (induction xs arbitrary: acc)
  case Nil then show ?case by simp
next
  case (Cons x xs)
  have "distinct (map uuid (insertPatch x acc @ xs))"
    using Cons.prems map_uuid_insertPatch[of x acc] by (auto simp: set_insertPatch)
  from Cons.IH[OF this] show ?case by simp
qed

lemma distinct_sortStamps: "distinct (map uuid xs) \<Longrightarrow> distinct (map uuid (sortStamps xs))"
  using distinct_foldl_insertPatch[of "[]" xs] by (simp add: sortStamps_def)

lemma loadOps_keeps:
  "loadOps vs (p, lg) = Inr (p', lg') \<Longrightarrow>
     uuid p' = uuid p \<and> patchSource p' = patchSource p \<and> patchTarget p' = patchTarget p
     \<and> mTime p' = mTime p \<and> errs p' = errs p"
proof (induction vs arbitrary: p lg)
  case Nil then show ?case by simp
next
  case (Cons v vs)
  then show ?case
    by (auto simp: Enqueue_def split: sum.splits failure.splits)
qed

lemma loadPatch_Inr:
  assumes "loadPatch clock src tgt k b (n, lg) = Inr (p, n', lg')"
  shows "uuid p = k"
    and "patchSource p = (case patchSourceKey b of
                            Some s \<Rightarrow> if s \<noteq> URI src then tgt else src | None \<Rightarrow> src)"
    and "patchTarget p = (case patchSourceKey b of
                            Some s \<Rightarrow> if s \<noteq> URI src then src else tgt | None \<Rightarrow> tgt)"
    and "errs p = (case patchErrKey b of Some e \<Rightarrow> [Errorf e] | None \<Rightarrow> [])"
    and "mTime p = (case UnmarshalJSON (timeKey b) (clock (case patchErrKey b of None \<Rightarrow> n + 1 | Some e \<Rightarrow> n + 2)) of
                      Inr t \<Rightarrow> t
                    | Inl err \<Rightarrow> clock (case patchErrKey b of None \<Rightarrow> n | Some e \<Rightarrow> n + 1))"
    and "n' = (case patchErrKey b of None \<Rightarrow> n + 2 | Some e \<Rightarrow> n + 3)"
    and "\<exists>opsB p3. opsKey b = Some opsB \<and> ops p3 = []
            \<and> loadOps (map snd (entries opsB)) (p3, lg) = Inr (p, lg')"
proof -
  from assms obtain opsB p3 where
    o: "opsKey b = Some opsB" and l: "loadOps (map snd (entries opsB)) (p3, lg) = Inr (p, lg')"
    and p3: "p3 = (case UnmarshalJSON (timeKey b) (clock (case patchErrKey b of None \<Rightarrow> n + 1 | Some e \<Rightarrow> n + 2)) of
                      Inr t' \<Rightarrow> Stamp t'
                    | Inl err \<Rightarrow> (\<lambda>q. q))
                 ((case patchSourceKey b of
                      Some s \<Rightarrow> if s \<noteq> URI src then (\<lambda>q. q\<lparr>patchSource := tgt, patchTarget := src\<rparr>) else (\<lambda>q. q)
                    | None \<Rightarrow> (\<lambda>q. q))
                  ((case patchErrKey b of
                      Some e \<Rightarrow> SetPatchError (Errorf e) (clock (n + 1))
                    | None \<Rightarrow> (\<lambda>q. q))
                   (SetUUID k (NewPatch src tgt (clock n)))))"
    and n': "n' = (case patchErrKey b of None \<Rightarrow> n + 2 | Some e \<Rightarrow> n + 3)"
    by (auto simp: loadPatch_def Let_def split: if_splits option.splits sum.splits prod.splits)
  note k = loadOps_keeps[OF l]
  show "uuid p = k"
    using k by (simp add: p3 SetUUID_def NewPatch_def SetPatchError_def Stamp_def split: option.splits sum.splits)
  show "patchSource p = (case patchSourceKey b of
                            Some s \<Rightarrow> if s \<noteq> URI src then tgt else src | None \<Rightarrow> src)"
    using k by (simp add: p3 SetUUID_def NewPatch_def SetPatchError_def Stamp_def split: option.splits sum.splits)
  show "patchTarget p = (case patchSourceKey b of
                            Some s \<Rightarrow> if s \<noteq> URI src then src else tgt | None \<Rightarrow> tgt)"
    using k by (simp add: p3 SetUUID_def NewPatch_def SetPatchError_def Stamp_def split: option.splits sum.splits)
  show "errs p = (case patchErrKey b of Some e \<Rightarrow> [Errorf e] | None \<Rightarrow> [])"
    using k by (simp add: p3 SetUUID_def NewPatch_def SetPatchError_def Stamp_def split: option.splits sum.splits)
  show "mTime p = (case UnmarshalJSON (timeKey b) (clock (case patchErrKey b of None \<Rightarrow> n + 1 | Some e \<Rightarrow> n + 2)) of
                      Inr t \<Rightarrow> t
                    | Inl err \<Rightarrow> clock (case patchErrKey b of None \<Rightarrow> n | Some e \<Rightarrow> n + 1))"
    using k by (simp add: p3 SetUUID_def NewPatch_def SetPatchError_def Stamp_def split: option.splits sum.splits)
  show "n' = (case patchErrKey b of None \<Rightarrow> n + 2 | Some e \<Rightarrow> n + 3)" by (rule n')
  show "\<exists>opsB p3. opsKey b = Some opsB \<and> ops p3 = []
            \<and> loadOps (map snd (entries opsB)) (p3, lg) = Inr (p, lg')"
    using o l by (intro exI[of _ opsB] exI[of _ p3])
      (simp add: p3 SetUUID_def NewPatch_def SetPatchError_def Stamp_def split: option.splits sum.splits)
qed

lemma loadPatch_counter:
  "loadPatch clock src tgt k b (n, lg) = Inr (p, n', lg') \<Longrightarrow> n < n'"
  using loadPatch_Inr(6)[of clock src tgt k b n lg p n' lg'] by (simp split: option.splits)

lemma loadAll_counter:
  "loadAll clock src tgt bucket (acc, n, lg) = Inr (stamps, n', lg') \<Longrightarrow> n \<le> n'"
proof (induction bucket arbitrary: acc n lg)
  case Nil
  then show ?case by simp
next
  case (Cons kb bucket)
  obtain k b where kb: "kb = (k, b)" by (cases kb)
  from Cons.prems obtain p n1 lg1 where
    lp: "loadPatch clock src tgt k b (n, lg) = Inr (p, n1, lg1)"
    and rest: "loadAll clock src tgt bucket (acc @ [p], n1, lg1) = Inr (stamps, n', lg')"
    by (auto simp: kb split: sum.splits)
  from Cons.IH[OF rest] loadPatch_counter[OF lp] show ?case by simp
qed

lemma loadAll_Inr:
  "loadAll clock src tgt bucket (acc, n, lg) = Inr (stamps, n', lg') \<Longrightarrow>
     \<exists>ps. stamps = acc @ ps
       \<and> list_all2 (\<lambda>kb p. \<exists>m l m' l'. loadPatch clock src tgt (fst kb) (snd kb) (m, l) = Inr (p, m', l')
                                \<and> n \<le> m \<and> m' \<le> n') bucket ps"
proof (induction bucket arbitrary: acc n lg)
  case Nil
  then show ?case by simp
next
  case (Cons kb bucket)
  obtain k b where kb: "kb = (k, b)" by (cases kb)
  from Cons.prems obtain p n1 lg1 where
    lp: "loadPatch clock src tgt k b (n, lg) = Inr (p, n1, lg1)"
    and rest: "loadAll clock src tgt bucket (acc @ [p], n1, lg1) = Inr (stamps, n', lg')"
    by (auto simp: kb split: sum.splits)
  from Cons.IH[OF rest] obtain ps where
    ps: "stamps = (acc @ [p]) @ ps"
    and all: "list_all2 (\<lambda>kb p. \<exists>m l m' l'. loadPatch clock src tgt (fst kb) (snd kb) (m, l) = Inr (p, m', l')
                                \<and> n1 \<le> m \<and> m' \<le> n') bucket ps"
    by blast
  have n1: "n < n1" by (rule loadPatch_counter[OF lp])
  have le: "n1 \<le> n'" by (rule loadAll_counter[OF rest])
  have all': "list_all2 (\<lambda>kb p. \<exists>m l m' l'. loadPatch clock src tgt (fst kb) (snd kb) (m, l) = Inr (p, m', l')
                                \<and> n \<le> m \<and> m' \<le> n') bucket ps"
    using all n1 by (rule_tac list_all2_mono) (assumption, force)
  have hd: "\<exists>m l m' l'. loadPatch clock src tgt (fst kb) (snd kb) (m, l) = Inr (p, m', l') \<and> n \<le> m \<and> m' \<le> n'"
    using lp le by (auto simp: kb)
  show ?case
    by (rule exI[of _ "p # ps"]) (use ps all' hd in simp)
qed

lemma loadAll_uuids:
  assumes "loadAll clock src tgt bucket ([], n, lg) = Inr (stamps, n', lg')"
  shows "map uuid stamps = map fst bucket"
proof -
  from loadAll_Inr[OF assms] have
    "list_all2 (\<lambda>kb p. \<exists>m l m' l'. loadPatch clock src tgt (fst kb) (snd kb) (m, l) = Inr (p, m', l')
                                \<and> n \<le> m \<and> m' \<le> n') bucket stamps"
    by simp
  then have "list_all2 (\<lambda>kb p. fst kb = uuid p) bucket stamps"
    by (rule list_all2_mono) (auto dest: loadPatch_Inr(1))
  then show ?thesis
    by (induction rule: list_all2_induct) auto
qed

lemma loadAll_member:
  assumes "loadAll clock src tgt bucket ([], n, lg) = Inr (stamps, n', lg')"
    and "p \<in> set stamps"
  shows "\<exists>b m l m' l'. (uuid p, b) \<in> set bucket
           \<and> loadPatch clock src tgt (uuid p) b (m, l) = Inr (p, m', l') \<and> n \<le> m \<and> m' \<le> n'"
proof -
  from loadAll_Inr[OF assms(1)] have
    all: "list_all2 (\<lambda>kb p. \<exists>m l m' l'. loadPatch clock src tgt (fst kb) (snd kb) (m, l) = Inr (p, m', l')
                                \<and> n \<le> m \<and> m' \<le> n') bucket stamps"
    by simp
  from assms(2) obtain i where i: "i < length stamps" "stamps ! i = p"
    by (auto simp: in_set_conv_nth)
  from all i have len: "i < length bucket" by (simp add: list_all2_lengthD)
  from list_all2_nthD2[OF all i(1)] i(2) obtain m l m' l' where
    lp: "loadPatch clock src tgt (fst (bucket ! i)) (snd (bucket ! i)) (m, l) = Inr (p, m', l')"
    and b: "n \<le> m" "m' \<le> n'" by auto
  from loadPatch_Inr(1)[OF lp] have u: "fst (bucket ! i) = uuid p" by simp
  have "(uuid p, snd (bucket ! i)) \<in> set bucket"
    using len u by (metis nth_mem prod.collapse)
  with lp u b show ?thesis by (metis (no_types))
qed

lemma set_pageLoop: "set (pageLoop offset limit 0 xs []) \<subseteq> set xs"
  by (simp add: pageLoop_eq) (meson in_set_dropD in_set_takeD subsetI)

lemma Load_Inr:
  assumes "Load clock P offset limit = Inr r"
  shows "\<exists>stamps0 n lg. opened (db P)
           \<and> loadAll clock (source P) (target P)
                (case patches (db P) of None \<Rightarrow> [] | Some bucket \<Rightarrow> bucket) ([], 0, []) = Inr (stamps0, n, lg)
           \<and> loaded r = pageLoop offset limit 0 (sortStamps stamps0) []
           \<and> toPrune r = computePrunes (sortStamps stamps0)
           \<and> logged r = lg"
  using assms by (auto simp: Load_def Let_def split: if_splits sum.splits prod.splits)

lemma Load_member:
  assumes "Load clock P offset limit = Inr r" and "p \<in> set (loaded r)"
  shows "\<exists>bucket b m l m' l'. patches (db P) = Some bucket \<and> (uuid p, b) \<in> set bucket
           \<and> loadPatch clock (source P) (target P) (uuid p) b (m, l) = Inr (p, m', l')"
proof -
  from Load_Inr[OF assms(1)] obtain stamps0 n lg where
    la: "loadAll clock (source P) (target P)
                (case patches (db P) of None \<Rightarrow> [] | Some bucket \<Rightarrow> bucket) ([], 0, []) = Inr (stamps0, n, lg)"
    and ld: "loaded r = pageLoop offset limit 0 (sortStamps stamps0) []"
    by blast
  from assms(2) ld set_pageLoop[of offset limit "sortStamps stamps0"] have "p \<in> set stamps0"
    by (auto simp: set_sortStamps)
  from loadAll_member[OF la this] obtain b m l m' l' where
    mem: "(uuid p, b) \<in> set (case patches (db P) of None \<Rightarrow> [] | Some bucket \<Rightarrow> bucket)"
    and lp: "loadPatch clock (source P) (target P) (uuid p) b (m, l) = Inr (p, m', l')"
    by blast
  from mem obtain bucket where "patches (db P) = Some bucket" "(uuid p, b) \<in> set bucket"
    by (cases "patches (db P)") auto
  with lp show ?thesis by blast
qed

subsection \<open>Role inversion\<close>

text \<open>
  C6. Every patch Load returns was rebuilt from a bucket of the store under its UUID. If
  the source identity stored in that bucket differs from the URI of the configured
  source, the patch's source is the configured target and its target the configured
  source; if it equals that URI, the configured orientation is kept.
\<close>

theorem Load_role_inversion:
  assumes "Load clock P offset limit = Inr r" and "p \<in> set (loaded r)"
  shows "\<exists>bucket b. patches (db P) = Some bucket \<and> (uuid p, b) \<in> set bucket
           \<and> (\<forall>s. patchSourceKey b = Some s \<and> s \<noteq> URI (source P) \<longrightarrow>
                 patchSource p = target P \<and> patchTarget p = source P)
           \<and> (patchSourceKey b = Some (URI (source P)) \<longrightarrow>
                 patchSource p = source P \<and> patchTarget p = target P)"
proof -
  from Load_member[OF assms] obtain bucket b m l m' l' where
    bk: "patches (db P) = Some bucket" "(uuid p, b) \<in> set bucket"
    and lp: "loadPatch clock (source P) (target P) (uuid p) b (m, l) = Inr (p, m', l')"
    by blast
  from loadPatch_Inr(2,3)[OF lp] bk show ?thesis
    by (intro exI[of _ bucket] exI[of _ b]) (auto split: option.splits)
qed


theorem Load_role_inversion_witness:
  "map uuid loadedMixed = [''m2'', ''m1'']
   \<and> patchSource (loadedMixed ! 1) = target storeMixed
   \<and> patchTarget (loadedMixed ! 1) = source storeMixed
   \<and> patchSource (loadedMixed ! 0) = source storeMixed
   \<and> patchTarget (loadedMixed ! 0) = target storeMixed"
proof -
  have "case Load clock0 storeMixed 0 10 of
          Inr r \<Rightarrow> map uuid (loaded r) = [''m2'', ''m1''] | Inl f \<Rightarrow> False"
    by code_simp
  then obtain r where L: "Load clock0 storeMixed 0 10 = Inr r"
    and u: "map uuid (loaded r) = [''m2'', ''m1'']"
    by (cases "Load clock0 storeMixed 0 10") auto
  have lm: "loadedMixed = loaded r" by (simp add: loadedMixed_def L)
  from u have len: "length (loaded r) = 2" by (metis length_map length_Cons list.size(3) numeral_2_eq_2)
  from u len have u0: "uuid (loaded r ! 0) = ''m2''" and u1: "uuid (loaded r ! 1) = ''m1''"
    by (metis nth_map nth_Cons_0 zero_less_numeral len, metis nth_map nth_Cons_0 nth_Cons_Suc One_nat_def one_less_numeral_iff semiring_norm(76) len)
  have m0: "loaded r ! 0 \<in> set (loaded r)" and m1: "loaded r ! 1 \<in> set (loaded r)"
    using len by simp_all
  have bk: "patches (db storeMixed) = Some [(''m1'', bucketSwapped), (''m2'', bucketBadStamp)]"
    by (simp add: storeMixed_def)
  have keys: "patchSourceKey bucketSwapped = Some ''http://cells/right''"
    "patchSourceKey bucketBadStamp = Some ''fs:///data/left''"
    "URI (source storeMixed) = ''fs:///data/left''"
    by (simp_all add: bucketSwapped_def bucketBadStamp_def storeMixed_def epA_def)
  from Load_role_inversion[OF L m1] u1 bk keys
  have s1: "patchSource (loaded r ! 1) = target storeMixed \<and> patchTarget (loaded r ! 1) = source storeMixed"
    by auto
  from Load_role_inversion[OF L m0] u0 bk keys
  have s0: "patchSource (loaded r ! 0) = source storeMixed \<and> patchTarget (loaded r ! 0) = target storeMixed"
    by auto
  from s0 s1 u show ?thesis by (simp add: lm)
qed

subsection \<open>The stamp entry\<close>

lemma loadOps_mTime:
  "loadOps vs (p\<lparr>mTime := t\<rparr>, lg)
     = (case loadOps vs (p, lg) of Inl f \<Rightarrow> Inl f | Inr (q, l) \<Rightarrow> Inr (q\<lparr>mTime := t\<rparr>, l))"
proof (induction vs arbitrary: p lg)
  case Nil
  then show ?case by simp
next
  case (Cons v vs)
  have e: "\<And>op. (p\<lparr>mTime := t\<rparr>)\<lparr>ops := ops p @ [op]\<rparr> = (p\<lparr>ops := ops p @ [op]\<rparr>)\<lparr>mTime := t\<rparr>"
    by simp
  show ?case
    by (simp add: Enqueue_def Cons.IH e split: sum.splits failure.splits del: patch.update_convs)
qed

lemma loadPatch_timeKey:
  "loadPatch clock src tgt k (b\<lparr>timeKey := x\<rparr>) (n, lg)
     = (case loadPatch clock src tgt k b (n, lg) of
          Inl f \<Rightarrow> Inl f
        | Inr (p, n', lg') \<Rightarrow>
            Inr (p\<lparr>mTime := (case UnmarshalJSON x (clock (case patchErrKey b of None \<Rightarrow> n + 1 | Some e \<Rightarrow> n + 2)) of
                                 Inr t \<Rightarrow> t
                               | Inl err \<Rightarrow> clock (case patchErrKey b of None \<Rightarrow> n | Some e \<Rightarrow> n + 1))\<rparr>,
                 n', lg'))"
proof -
  have upd: "\<And>q t u. (case u of Inr t' \<Rightarrow> Stamp t' q | Inl err \<Rightarrow> q)
               = q\<lparr>mTime := (case u of Inr t' \<Rightarrow> t' | Inl (err :: failure) \<Rightarrow> mTime q)\<rparr>"
    by (simp add: Stamp_def split: sum.splits)
  show ?thesis
  proof (cases "asSource src \<and> asTarget tgt")
    case False
    then show ?thesis by (simp add: loadPatch_def)
  next
    case caps: True
    show ?thesis
    proof (cases "(case patchSourceKey b of Some s \<Rightarrow> s \<noteq> URI src | None \<Rightarrow> False)
           \<and> \<not> (asSource tgt \<and> asTarget src)")
      case True
      with caps show ?thesis by (auto simp: loadPatch_def Let_def split: prod.splits)
    next
      case inv: False
      show ?thesis
      proof (cases "opsKey b")
        case None
        with caps inv show ?thesis by (auto simp: loadPatch_def Let_def split: prod.splits)
      next
        case (Some opsB)
        define p0 where "p0 = SetUUID k (NewPatch src tgt (clock n))"
        define P1 where "P1 = (case patchErrKey b of
                                 Some e \<Rightarrow> SetPatchError (Errorf e) (clock (n + 1)) p0 | None \<Rightarrow> p0)"
        define N2 where "N2 = (case patchErrKey b of Some e \<Rightarrow> n + 2 | None \<Rightarrow> n + 1)"
        define P2 where "P2 = (case patchSourceKey b of
                                 Some s \<Rightarrow> if s \<noteq> URI src then P1\<lparr>patchSource := tgt, patchTarget := src\<rparr> else P1
                               | None \<Rightarrow> P1)"
        have eq: "loadPatch clock src tgt k (b\<lparr>timeKey := y\<rparr>) (n, lg)
                = (case loadOps (map snd (entries opsB)) (P2, lg) of
                     Inl f \<Rightarrow> Inl f
                   | Inr (q, l) \<Rightarrow>
                       Inr (q\<lparr>mTime := (case UnmarshalJSON y (clock N2) of
                                            Inr t \<Rightarrow> t | Inl err \<Rightarrow> mTime P2)\<rparr>, N2 + 1, l))" for y
          unfolding loadPatch_def Let_def upd loadOps_mTime
          using caps inv Some
          by (cases "patchErrKey b"; cases "patchSourceKey b")
             (auto simp: P2_def P1_def N2_def p0_def split: sum.split prod.split)
        have m: "mTime P2 = clock (case patchErrKey b of None \<Rightarrow> n | Some e \<Rightarrow> n + 1)"
          by (simp add: P2_def P1_def p0_def SetUUID_def NewPatch_def SetPatchError_def
                split: option.splits)
        have N: "N2 = (case patchErrKey b of None \<Rightarrow> n + 1 | Some e \<Rightarrow> n + 2)"
          by (simp add: N2_def split: option.splits)
        have b: "b\<lparr>timeKey := timeKey b\<rparr> = b" by simp
        from eq[of x] eq[of "timeKey b"] show ?thesis
          unfolding b m N
          by (simp split: sum.split prod.split)
      qed
    qed
  qed
qed

lemma loadAll_acc:
  "loadAll clock src tgt bs (acc, n, lg)
     = (case loadAll clock src tgt bs ([], n, lg) of
          Inl f \<Rightarrow> Inl f
        | Inr (ps, n', lg') \<Rightarrow> Inr (acc @ ps, n', lg'))"
proof (induction bs arbitrary: acc n lg)
  case Nil
  then show ?case by simp
next
  case (Cons kb bs)
  obtain k b where kb: "kb = (k, b)" by (cases kb)
  show ?case
  proof (cases "loadPatch clock src tgt k b (n, lg)")
    case (Inl f)
    then show ?thesis by (simp add: kb)
  next
    case (Inr res)
    obtain p n1 lg1 where res: "res = (p, n1, lg1)" by (cases res)
    show ?thesis
      using Cons.IH[of "acc @ [p]" n1 lg1] Cons.IH[of "[p]" n1 lg1]
      by (simp add: kb Inr res split: sum.splits)
  qed
qed

lemma loadAll_append:
  "loadAll clock src tgt (bs1 @ bs2) st
     = (case loadAll clock src tgt bs1 st of Inl f \<Rightarrow> Inl f | Inr st' \<Rightarrow> loadAll clock src tgt bs2 st')"
proof (induction bs1 arbitrary: st)
  case Nil
  then show ?case by simp
next
  case (Cons kb bs1)
  obtain k b where kb: "kb = (k, b)" by (cases kb)
  obtain stamps n lg where st: "st = (stamps, n, lg)" by (cases st)
  show ?case
    by (simp add: kb st Cons.IH split: sum.splits)
qed

lemma loadAll_readings:
  "loadAll clock src tgt bs (acc, n, lg) = Inr (stamps, n', lg') \<Longrightarrow> n' = n + readings bs"
proof (induction bs arbitrary: acc n lg)
  case Nil
  then show ?case by (simp add: readings_def)
next
  case (Cons kb bs)
  obtain k b where kb: "kb = (k, b)" by (cases kb)
  from Cons.prems obtain p n1 lg1 where
    lp: "loadPatch clock src tgt k b (n, lg) = Inr (p, n1, lg1)"
    and rest: "loadAll clock src tgt bs (acc @ [p], n1, lg1) = Inr (stamps, n', lg')"
    by (auto simp: kb split: sum.splits)
  from Cons.IH[OF rest] loadPatch_Inr(6)[OF lp] show ?case
    by (simp add: readings_def kb split: option.splits)
qed

lemma loadAll_timeKey_fails:
  assumes "loadAll clock src tgt (bs1 @ (k, b) # bs2) st = Inl f"
  shows "loadAll clock src tgt (bs1 @ (k, b\<lparr>timeKey := x\<rparr>) # bs2) st = Inl f"
proof (cases "loadAll clock src tgt bs1 st")
  case (Inl g)
  with assms show ?thesis by (simp add: loadAll_append)
next
  case (Inr st1)
  obtain s1 n1 l1 where st1: "st1 = (s1, n1, l1)" by (cases st1)
  show ?thesis
  proof (cases "loadPatch clock src tgt k b (n1, l1)")
    case (Inl g)
    with assms Inr st1 show ?thesis by (simp add: loadAll_append loadPatch_timeKey)
  next
    case lp: (Inr res)
    obtain p n2 l2 where res: "res = (p, n2, l2)" by (cases res)
    from assms Inr st1 lp res have "loadAll clock src tgt bs2 (s1 @ [p], n2, l2) = Inl f"
      by (simp add: loadAll_append)
    then have "loadAll clock src tgt bs2 ([], n2, l2) = Inl f"
      by (subst (asm) loadAll_acc) (simp split: sum.splits prod.splits)
    then have "loadAll clock src tgt bs2 (s1 @ [p'], n2, l2) = Inl f" for p'
      by (subst loadAll_acc) simp
    with Inr st1 lp res show ?thesis by (simp add: loadAll_append loadPatch_timeKey)
  qed
qed

lemma loadAll_Inr_uuids:
  assumes "loadAll clock src tgt bucket (acc, n, lg) = Inr (stamps, n', lg')"
  shows "\<exists>ps. stamps = acc @ ps \<and> map uuid ps = map fst bucket"
proof -
  from assms have "loadAll clock src tgt bucket ([], n, lg) = Inr (drop (length acc) stamps, n', lg')
      \<and> stamps = acc @ drop (length acc) stamps"
    by (subst (asm) loadAll_acc) (auto split: sum.splits)
  then show ?thesis using loadAll_uuids by metis
qed

lemma loadAll_patch_of_key:
  assumes la: "loadAll clock src tgt (bs1 @ (k, b) # bs2) ([], 0, []) = Inr (stamps, n', lg')"
    and p: "p \<in> set stamps" "uuid p = k"
    and k: "k \<notin> fst ` set (bs1 @ bs2)"
  shows "\<exists>l m' l'. loadPatch clock src tgt k b (readings bs1, l) = Inr (p, m', l')"
proof -
  from la obtain s1 n1 l1 where
    a1: "loadAll clock src tgt bs1 ([], 0, []) = Inr (s1, n1, l1)"
    and a2: "loadAll clock src tgt ((k, b) # bs2) (s1, n1, l1) = Inr (stamps, n', lg')"
    by (auto simp: loadAll_append split: sum.splits)
  from a2 obtain q n2 l2 where
    lp: "loadPatch clock src tgt k b (n1, l1) = Inr (q, n2, l2)"
    and a3: "loadAll clock src tgt bs2 (s1 @ [q], n2, l2) = Inr (stamps, n', lg')"
    by (auto split: sum.splits)
  from loadAll_readings[OF a1] have n1: "n1 = readings bs1" by simp
  from loadAll_uuids[OF a1] have u1: "map uuid s1 = map fst bs1" .
  from loadAll_Inr_uuids[OF a3] obtain ps where
    st: "stamps = (s1 @ [q]) @ ps" and u2: "map uuid ps = map fst bs2" by blast
  have "p \<notin> set s1"
  proof
    assume "p \<in> set s1"
    then have "uuid p \<in> set (map uuid s1)" by simp
    with u1 p(2) k show False by auto
  qed
  moreover have "p \<notin> set ps"
  proof
    assume "p \<in> set ps"
    then have "uuid p \<in> set (map uuid ps)" by simp
    with u2 p(2) k show False by auto
  qed
  ultimately have "p = q" using p(1) st by auto
  with lp n1 show ?thesis by blast
qed

text \<open>
  C7. Let the store hold, under a key k of its own, a bucket whose stamp entry is absent or
  is not a time. The entry never makes Load fail: if Load fails, it fails in the same way
  whatever is stored as that stamp. And when Load returns, the patch rebuilt from that
  bucket carries a reading of the clock taken during this Load: the one NewPatch took
  when the patch was made or, if an error is stored, the one SetPatchError took.
\<close>

theorem Load_tolerates_bad_stamp:
  assumes "patches (db P) = Some (bs1 @ (k, b) # bs2)"
    and "k \<notin> fst ` set (bs1 @ bs2)"
    and "timeKey b = None \<or> timeKey b = Some (StampInvalid s)"
  shows "(Load clock P offset limit = Inl f \<longrightarrow>
            Load clock (P\<lparr>db := (db P)\<lparr>patches := Some (bs1 @ (k, b\<lparr>timeKey := x\<rparr>) # bs2)\<rparr>\<rparr>) offset limit = Inl f)
       \<and> (\<forall>r p. Load clock P offset limit = Inr r \<and> p \<in> set (loaded r) \<and> uuid p = k \<longrightarrow>
            mTime p = clock (readings bs1 + (case patchErrKey b of None \<Rightarrow> 0 | Some e \<Rightarrow> 1)))"
proof (intro conjI impI allI)
  assume "Load clock P offset limit = Inl f"
  then show "Load clock (P\<lparr>db := (db P)\<lparr>patches := Some (bs1 @ (k, b\<lparr>timeKey := x\<rparr>) # bs2)\<rparr>\<rparr>) offset limit = Inl f"
    using assms(1) loadAll_timeKey_fails[of clock "source P" "target P" bs1 k b bs2 "([], 0, [])" f x]
    by (auto simp: Load_def Let_def split: if_splits sum.splits prod.splits)
next
  fix r p
  assume h: "Load clock P offset limit = Inr r \<and> p \<in> set (loaded r) \<and> uuid p = k"
  from Load_Inr[of clock P offset limit r] h assms(1) obtain stamps0 n lg where
    la: "loadAll clock (source P) (target P) (bs1 @ (k, b) # bs2) ([], 0, []) = Inr (stamps0, n, lg)"
    and ld: "loaded r = pageLoop offset limit 0 (sortStamps stamps0) []"
    by auto
  from h ld set_pageLoop[of offset limit "sortStamps stamps0"] have "p \<in> set stamps0"
    by (auto simp: set_sortStamps)
  from loadAll_patch_of_key[OF la this _ assms(2)] h obtain l m' l' where
    lp: "loadPatch clock (source P) (target P) k b (readings bs1, l) = Inr (p, m', l')"
    by blast
  have bad: "UnmarshalJSON (timeKey b) t = Inr u \<Longrightarrow> False" for t u
    using assms(3) by (auto simp: UnmarshalJSON_def)
  from loadPatch_Inr(5)[OF lp] bad
  show "mTime p = clock (readings bs1 + (case patchErrKey b of None \<Rightarrow> 0 | Some e \<Rightarrow> 1))"
    by (cases "patchErrKey b") (auto split: sum.splits dest: bad)
qed


theorem Load_tolerates_bad_stamp_witness:
  "timeKey bucketBadStamp = Some (StampInvalid ''yesterday'')
   \<and> map uuid loadedMixed = [''m2'', ''m1'']
   \<and> mTime (loadedMixed ! 0) = clock0 (readings [(''m1'', bucketSwapped)])
   \<and> clock0 (readings [(''m1'', bucketSwapped)]) = 1003"
proof -
  have "case Load clock0 storeMixed 0 10 of
          Inr r \<Rightarrow> map uuid (loaded r) = [''m2'', ''m1''] | Inl f \<Rightarrow> False"
    by code_simp
  then obtain r where L: "Load clock0 storeMixed 0 10 = Inr r"
    and u: "map uuid (loaded r) = [''m2'', ''m1'']"
    by (cases "Load clock0 storeMixed 0 10") auto
  have lm: "loadedMixed = loaded r" by (simp add: loadedMixed_def L)
  from u have len: "length (loaded r) = 2"
    by (metis length_map length_Cons list.size(3) numeral_2_eq_2)
  from u len have u0: "uuid (loaded r ! 0) = ''m2''"
    by (metis nth_map nth_Cons_0 zero_less_numeral)
  have m0: "loaded r ! 0 \<in> set (loaded r)"
    using len by simp
  have bk: "patches (db storeMixed) = Some ([(''m1'', bucketSwapped)] @ (''m2'', bucketBadStamp) # [])"
    by (simp add: storeMixed_def)
  have k: "''m2'' \<notin> fst ` set ([(''m1'', bucketSwapped)] @ [])"
    by simp
  have bad: "timeKey bucketBadStamp = None \<or> timeKey bucketBadStamp = Some (StampInvalid ''yesterday'')"
    by (simp add: bucketBadStamp_def)
  have e: "patchErrKey bucketBadStamp = None"
    by (simp add: bucketBadStamp_def)
  from Load_tolerates_bad_stamp[OF bk k bad, of clock0 0 10 "Panic []" None] L m0 u0 e
  have "mTime (loaded r ! 0) = clock0 (readings [(''m1'', bucketSwapped)])"
    by auto
  moreover have "clock0 (readings [(''m1'', bucketSwapped)]) = 1003"
    by (simp add: clock0_def readings_def bucketSwapped_def)
  moreover have "timeKey bucketBadStamp = Some (StampInvalid ''yesterday'')"
    by (simp add: bucketBadStamp_def)
  ultimately show ?thesis using u by (simp add: lm)
qed

subsection \<open>Pages\<close>

lemma Load_open:
  assumes "opened (db P)"
    and "loadAll clock (source P) (target P)
           (case patches (db P) of None \<Rightarrow> [] | Some b \<Rightarrow> b) ([], 0, []) = Inr (stamps0, n, lg)"
  shows "Load clock P offset limit
           = Inr \<lparr>loaded = pageLoop offset limit 0 (sortStamps stamps0) [],
                  toPrune = computePrunes (sortStamps stamps0), logged = lg\<rparr>"
  using assms by (simp add: Load_def Let_def)

lemma loadAll_length:
  assumes "loadAll clock src tgt bucket ([], n, lg) = Inr (stamps, n', lg')"
  shows "length stamps = length bucket"
  using loadAll_uuids[OF assms] by (metis length_map)

text \<open>
  C3, as stated: for every store state, every offset of at least 0 and every limit of at
  least 1, Load returns exactly the patches at the sorted positions offset to
  offset+limit-1, and an empty list and no error when the offset is at least the patch
  count. On a closed database Load returns the error of \<open>db.View\<close>. And the four patches of
  \<open>storeFour\<close> sort as p2, p4, p3, p1: with offset 2 and the largest int as limit the
  positions 2 and 3 hold p3 and p1, and Load returns p3 alone, because \<open>offset+limit-1\<close>
  wraps to the smallest int and the loop breaks after its first append.
\<close>

theorem Load_page_wraps_or_fails:
  "Load clock0 storeClosed 0 10 = Inl (Error ''database not open'')
   \<and> sint maxInt = 9223372036854775807
   \<and> (case Load clock0 storeFour 0 10 of Inr r \<Rightarrow> map uuid (loaded r) | Inl f \<Rightarrow> [])
       = [''p2'', ''p4'', ''p3'', ''p1'']
   \<and> (case Load clock0 storeFour 2 maxInt of Inr r \<Rightarrow> map uuid (loaded r) | Inl f \<Rightarrow> [])
       = [''p3'']"
  by code_simp

text \<open>
  C3, amended: on an open database whose records all rebuild, for every offset of at
  least 0 and every limit of at least 1 with offset+limit-1 inside the int range, Load
  sorts all stored patches by stamp, most recent first, and returns exactly those at the
  sorted positions offset to offset+limit-1 (fewer if the list ends earlier); when the
  offset is at least the number of stored patches it returns the empty list and no error.
\<close>

theorem Load_page:
  assumes "opened (db P)"
    and "loadAll clock (source P) (target P)
           (case patches (db P) of None \<Rightarrow> [] | Some b \<Rightarrow> b) ([], 0, []) = Inr (stamps0, n, lg)"
    and "0 \<le> sint offset" and "1 \<le> sint limit" and "sint offset + sint limit - 1 < 2 ^ 63"
  shows "\<exists>r. Load clock P offset limit = Inr r
           \<and> loaded r = take (nat (sint limit)) (drop (nat (sint offset)) (sortStamps stamps0))
           \<and> sorted_wrt (\<lambda>p q. GetStamp p \<ge> GetStamp q) (sortStamps stamps0)
           \<and> set (sortStamps stamps0) = set stamps0
           \<and> length (sortStamps stamps0)
               = length (case patches (db P) of None \<Rightarrow> [] | Some b \<Rightarrow> b)
           \<and> (int (length (case patches (db P) of None \<Rightarrow> [] | Some b \<Rightarrow> b)) \<le> sint offset
                \<longrightarrow> loaded r = [])"
proof -
  have ln: "length stamps0 = length (case patches (db P) of None \<Rightarrow> [] | Some b \<Rightarrow> b)"
    by (rule loadAll_length[OF assms(2)])
  have e: "sint (offset + limit - 1) = sint offset + sint limit - 1"
    using assms(3-5) by (intro sint_bound_no_wrap) auto
  have pg: "pageLoop offset limit 0 (sortStamps stamps0) []
          = take (nat (sint limit)) (drop (nat (sint offset)) (sortStamps stamps0))"
    using assms(3,4) by (simp add: pageLoop_eq e max_def)
  have emp: "int (length (case patches (db P) of None \<Rightarrow> [] | Some b \<Rightarrow> b)) \<le> sint offset \<longrightarrow>
      take (nat (sint limit)) (drop (nat (sint offset)) (sortStamps stamps0)) = []"
    by (simp add: length_sortStamps ln)
  have srt: "sorted_wrt (\<lambda>p q. GetStamp p \<ge> GetStamp q) (sortStamps stamps0)"
    using sorted_sortStamps[of stamps0] by (simp add: GetStamp_def)
  from Load_open[OF assms(1,2)] pg emp srt show ?thesis
    by (simp add: set_sortStamps length_sortStamps ln)
qed

theorem Load_page_witness:
  "(case Load clock0 storeFour 1 2 of Inr r \<Rightarrow> map uuid (loaded r) | Inl f \<Rightarrow> [''none''])
     = [''p4'', ''p3'']
   \<and> (case Load clock0 storeFour 4 2 of Inr r \<Rightarrow> map uuid (loaded r) | Inl f \<Rightarrow> [''none'']) = []"
proof -
  have "case loadAll clock0 (source storeFour) (target storeFour)
               (case patches (db storeFour) of None \<Rightarrow> [] | Some b \<Rightarrow> b) ([], 0, []) of
          Inr (s, n, lg) \<Rightarrow> map uuid (sortStamps s) = [''p2'', ''p4'', ''p3'', ''p1''] \<and> length s = 4
        | Inl f \<Rightarrow> False"
    by code_simp
  then obtain s n lg where
    la: "loadAll clock0 (source storeFour) (target storeFour)
               (case patches (db storeFour) of None \<Rightarrow> [] | Some b \<Rightarrow> b) ([], 0, []) = Inr (s, n, lg)"
    and u: "map uuid (sortStamps s) = [''p2'', ''p4'', ''p3'', ''p1'']" and len: "length s = 4"
    by (auto split: sum.splits)
  have o: "opened (db storeFour)" by (simp add: storeFour_def)
  have w: "sint (1 :: 64 word) = 1" "sint (2 :: 64 word) = 2" "sint (4 :: 64 word) = 4"
    by simp_all
  from Load_page[OF o la, of 1 2] w obtain r1 where
    r1: "Load clock0 storeFour 1 2 = Inr r1"
        "loaded r1 = take 2 (drop 1 (sortStamps s))"
    by auto
  have len': "length (case patches (db storeFour) of None \<Rightarrow> [] | Some b \<Rightarrow> b) = 4"
    using loadAll_length[OF la] len by simp
  from Load_page[OF o la, of 4 2] w len' obtain r2 where
    r2: "Load clock0 storeFour 4 2 = Inr r2" "loaded r2 = []"
    by auto
  have "map uuid (loaded r1) = take 2 (drop 1 (map uuid (sortStamps s)))"
    by (simp add: r1(2) take_map drop_map)
  with u r1 r2 show ?thesis by simp
qed

text \<open>
  C9, as stated: with the offset in range, every limit of zero or less gives exactly one
  patch. With offset 0 and the smallest int as limit, \<open>offset+limit-1\<close> wraps to the largest
  int, the break condition never holds, and Load returns all four patches of \<open>storeFour\<close>.
\<close>

theorem Load_min_limit_returns_all:
  "sint minInt = - 9223372036854775808
   \<and> (case Load clock0 storeFour 0 minInt of Inr r \<Rightarrow> map uuid (loaded r) | Inl f \<Rightarrow> [])
       = [''p2'', ''p4'', ''p3'', ''p1'']"
  by code_simp

text \<open>
  C9, amended: on an open database whose records all rebuild, with an offset of at least
  0 that is below the number of stored patches and a limit of zero or less, Load returns
  a page that is not empty; unless \<open>offset+limit-1\<close> falls below the int range, the page
  is exactly the one patch at the sorted position offset.
\<close>

theorem Load_nonpositive_limit:
  assumes "opened (db P)"
    and "loadAll clock (source P) (target P)
           (case patches (db P) of None \<Rightarrow> [] | Some b \<Rightarrow> b) ([], 0, []) = Inr (stamps0, n, lg)"
    and "0 \<le> sint offset" and "sint limit \<le> 0" and "sint offset < int (length stamps0)"
  shows "\<exists>r. Load clock P offset limit = Inr r \<and> loaded r \<noteq> []
           \<and> (- (2 ^ 63) \<le> sint offset + sint limit - 1 \<longrightarrow>
                loaded r = [sortStamps stamps0 ! nat (sint offset)])"
proof -
  let ?ss = "sortStamps stamps0"
  have len: "nat (sint offset) < length ?ss"
    using assms(3,5) by (simp add: length_sortStamps)
  have pl: "pageLoop offset limit 0 ?ss []
      = take (nat (max (sint offset) (sint (offset + limit - 1)) - sint offset + 1))
          (drop (nat (sint offset)) ?ss)"
    using assms(3) by (simp add: pageLoop_eq max_def)
  have ne: "pageLoop offset limit 0 ?ss [] \<noteq> []"
    using len unfolding pl by (simp add: max_def)
  have one: "pageLoop offset limit 0 ?ss [] = [?ss ! nat (sint offset)]"
    if nw: "- (2 ^ 63) \<le> sint offset + sint limit - 1"
  proof -
    have "sint offset + sint limit - 1 < 2 ^ 63"
      using assms(4) sint_lt[of offset] by simp
    with nw have e: "sint (offset + limit - 1) = sint offset + sint limit - 1"
      by (intro sint_bound_no_wrap) auto
    have "take 1 (drop (nat (sint offset)) ?ss) = [?ss ! nat (sint offset)]"
      using len by (simp add: take_Suc_conv_app_nth)
    then show ?thesis using assms(4) unfolding pl e by (simp add: max_def)
  qed
  from Load_open[OF assms(1,2)] ne one show ?thesis by simp
qed

theorem Load_nonpositive_limit_witness:
  "(case Load clock0 storeFour 1 0 of Inr r \<Rightarrow> map uuid (loaded r) | Inl f \<Rightarrow> []) = [''p4'']
   \<and> (case Load clock0 storeFour 3 (- 7) of Inr r \<Rightarrow> map uuid (loaded r) | Inl f \<Rightarrow> []) = [''p1'']"
proof -
  have "case loadAll clock0 (source storeFour) (target storeFour)
               (case patches (db storeFour) of None \<Rightarrow> [] | Some b \<Rightarrow> b) ([], 0, []) of
          Inr (s, n, lg) \<Rightarrow> map uuid (sortStamps s) = [''p2'', ''p4'', ''p3'', ''p1''] \<and> length s = 4
        | Inl f \<Rightarrow> False"
    by code_simp
  then obtain s n lg where
    la: "loadAll clock0 (source storeFour) (target storeFour)
               (case patches (db storeFour) of None \<Rightarrow> [] | Some b \<Rightarrow> b) ([], 0, []) = Inr (s, n, lg)"
    and u: "map uuid (sortStamps s) = [''p2'', ''p4'', ''p3'', ''p1'']" and len: "length s = 4"
    by (auto split: sum.splits)
  have o: "opened (db storeFour)" by (simp add: storeFour_def)
  have w: "sint (1 :: 64 word) = 1" "sint (0 :: 64 word) = 0" "sint (3 :: 64 word) = 3"
    "sint (- 7 :: 64 word) = - 7"
    by simp_all
  have ls: "length (sortStamps s) = 4" using len by (simp add: length_sortStamps)
  from Load_nonpositive_limit[OF o la, of 1 0] w len obtain r1 where
    r1: "Load clock0 storeFour 1 0 = Inr r1" "loaded r1 = [sortStamps s ! 1]"
    by auto
  from Load_nonpositive_limit[OF o la, of 3 "- 7"] w len obtain r2 where
    r2: "Load clock0 storeFour 3 (- 7) = Inr r2" "loaded r2 = [sortStamps s ! 3]"
    by auto
  have "uuid (sortStamps s ! 1) = map uuid (sortStamps s) ! 1"
       "uuid (sortStamps s ! 3) = map uuid (sortStamps s) ! 3"
    using ls by simp_all
  with u r1 r2 show ?thesis by simp
qed

end
